theory Spec2Isabelle
  imports Complex_Main "HOL-Library.Sublist" "HOL-Library.Log_Nat"
begin

section \<open>The converter component\<close>

text \<open>
  A shallow embedding of \<^verbatim>\<open>src/components/PDFConverter.tsx\<close>: the session state of the
  component, its event handlers (\<^verbatim>\<open>onDrop\<close>, \<^verbatim>\<open>handleFileSelect\<close>, the quality
  selector), the conversion run \<^verbatim>\<open>convertPDFToImages\<close> and the assembly and export
  \<^verbatim>\<open>downloadImagePDF\<close>.

  Numbers of the source are IEEE binary64 numbers. They are modelled as the reals they denote,
  and every arithmetic operation of the source is followed by the rounding \<open>fl\<close> to the
  nearest binary64 number (section Numbers).
  Every \<^verbatim>\<open>setState(prev => ...)\<close> becomes a function from the previous state to the next,
  every \<^verbatim>\<open>toast.*\<close> call an entry of a list of toasts that the handler returns.
\<close>

subsection \<open>Numbers\<close>

text \<open>A JavaScript number is a binary64 number: 53 significant bits, and the result of an
  arithmetic operation is the exact result rounded to the nearest such number, ties to the
  even significand. \<open>fl\<close> is this rounding with the exponent left unbounded: it agrees with
  binary64 arithmetic on every result that is 0 or whose magnitude lies between
  \<open>2 powi (-1022)\<close> and \<open>2 powi 1024\<close>; overflow to an infinity, NaN and the subnormal numbers
  are not modelled.
  The binary64 numbers are the fixed points of \<open>fl\<close>.\<close>

text \<open>The exponent of a positive real: \<open>2 powi expo x \<le> x < 2 powi (expo x + 1)\<close>.\<close>

definition expo :: "real \<Rightarrow> int" where
  "expo x = (if 1 \<le> x then bitlen \<lfloor>x\<rfloor> - 1 else - bitlen (\<lceil>1 / x\<rceil> - 1))"

text \<open>The distance between neighbouring binary64 numbers at \<open>x\<close>.\<close>

definition ulp :: "real \<Rightarrow> real" where
  "ulp x = 2 powi (expo \<bar>x\<bar> - 52)"

text \<open>Rounding to the nearest integer, ties to even.\<close>

definition rne :: "real \<Rightarrow> int" where
  "rne y = (let n = \<lfloor>y\<rfloor>; d = y - of_int n
            in if d < 1 / 2 then n else if 1 / 2 < d then n + 1 else if even n then n else n + 1)"

definition fl :: "real \<Rightarrow> real" where
  "fl x = (if x = 0 then 0 else of_int (rne (x / ulp x)) * ulp x)"

text \<open>The unit roundoff: the relative error of one rounding is at most \<open>eps\<close>.\<close>

definition eps :: real where
  "eps = 1 / 2 ^ 53"

subsection \<open>Session state\<close>

text \<open>The entries of \<^verbatim>\<open>qualitySettings\<close> (lines 31-35). A decimal literal denotes the
  binary64 number nearest to it.\<close>

record settings =
  scale :: real
  format :: string
  quality :: real

datatype quality = high | medium | low

datatype status = idle | processing | completed | error

text \<open>Of a browser \<^verbatim>\<open>File\<close> the component reads \<^verbatim>\<open>name\<close> and \<^verbatim>\<open>type\<close>; the content is
  only handed to the PDF library.\<close>

record File =
  name :: string
  type :: string

text \<open>\<^verbatim>\<open>interface ConversionState\<close> (lines 14-20). A raster page is a data URL, a string.\<close>

record ConversionState =
  "file" :: "File option"
  pages :: "string list"
  progress :: real
  status :: status
  quality :: quality

definition initialState :: ConversionState where
  "initialState = \<lparr>file = None, pages = [], progress = 0, status = idle, quality = high\<rparr>"

definition qualitySettings :: "quality \<Rightarrow> settings" where
  "qualitySettings q = (case q of
      high \<Rightarrow> \<lparr>scale = 2.0, format = ''image/jpeg'', settings.quality = fl 0.95\<rparr>
    | medium \<Rightarrow> \<lparr>scale = 1.5, format = ''image/jpeg'', settings.quality = fl 0.85\<rparr>
    | low \<Rightarrow> \<lparr>scale = 1.0, format = ''image/jpeg'', settings.quality = 0.75\<rparr>)"

text \<open>The texts shown to the user, by the call that shows them.\<close>

datatype message =
    Loaded string
  | PleaseUpload
  | PleaseSelect
  | StartingConversion
  | Converted nat
  | FailedToConvert
  | CreatingPDF
  | Generated
  | FailedToGenerate

datatype toast = toast_success message | toast_error message | toast_info message

subsection \<open>Loading a source and choosing the quality\<close>

text \<open>\<^verbatim>\<open>onDrop\<close> (lines 37-50): the first dropped file of type \<^verbatim>\<open>application/pdf\<close>, if any,
  replaces the source and resets the session. The handler does not read \<^verbatim>\<open>status\<close>.\<close>

definition onDrop :: "File list \<Rightarrow> ConversionState \<Rightarrow> ConversionState \<times> toast list" where
  "onDrop files prev =
     (case find (\<lambda>f. type f = ''application/pdf'') files of
        Some pdfFile \<Rightarrow>
          (prev\<lparr>file := Some pdfFile, status := idle, pages := [], progress := 0\<rparr>,
           [toast_success (Loaded (name pdfFile))])
      | None \<Rightarrow> (prev, [toast_error PleaseUpload]))"

text \<open>\<^verbatim>\<open>handleFileSelect\<close> (lines 62-70); the argument is \<^verbatim>\<open>e.target.files?.[0]\<close>.\<close>

definition handleFileSelect :: "File option \<Rightarrow> ConversionState \<Rightarrow> ConversionState \<times> toast list" where
  "handleFileSelect selected prev =
     (case selected of
        Some f \<Rightarrow>
          (if type f = ''application/pdf''
           then (prev\<lparr>file := Some f, status := idle, pages := [], progress := 0\<rparr>,
                 [toast_success (Loaded (name f))])
           else (prev, [toast_error PleaseSelect]))
      | None \<Rightarrow> (prev, [toast_error PleaseSelect]))"

text \<open>\<^verbatim>\<open>onValueChange\<close> of the quality selector (lines 234-236), and the condition under
  which the selector is rendered (line 223).\<close>

definition onValueChange :: "quality \<Rightarrow> ConversionState \<Rightarrow> ConversionState" where
  "onValueChange v prev = prev\<lparr>quality := v\<rparr>"

definition settingsRendered :: "ConversionState \<Rightarrow> bool" where
  "settingsRendered state = (file state \<noteq> None)"

text \<open>The convert button is rendered under the condition of line 252.\<close>

definition convertButtonRendered :: "ConversionState \<Rightarrow> bool" where
  "convertButtonRendered state = (file state \<noteq> None \<and> status state = idle)"

subsection \<open>Assembly and export\<close>

text \<open>The rectangle passed to \<^verbatim>\<open>pdf.addImage\<close>: the locals \<^verbatim>\<open>x\<close>, \<^verbatim>\<open>y\<close>, \<^verbatim>\<open>width\<close>,
  \<^verbatim>\<open>height\<close> of the \<^verbatim>\<open>img.onload\<close> callback.\<close>

record Placement =
  img_x :: real
  img_y :: real
  img_width :: real
  img_height :: real

text \<open>The body of \<^verbatim>\<open>img.onload\<close> (lines 140-156), every operation rounded. \<^verbatim>\<open>img.width\<close>
  and \<^verbatim>\<open>img.height\<close> are the pixel dimensions of the decoded image, integers below \<open>2 ^ 32\<close>.
  A division by zero, which yields an infinity or NaN in the source, yields 0 here: the
  function is meant for non-zero heights only.\<close>

definition img_onload :: "real \<Rightarrow> real \<Rightarrow> nat \<Rightarrow> nat \<Rightarrow> Placement" where
  "img_onload pdfWidth pdfHeight imgWidth imgHeight =
     (let imgAspectRatio = fl (real imgWidth / real imgHeight);
          pdfAspectRatio = fl (pdfWidth / pdfHeight);
          (width, height) =
             (if imgAspectRatio > pdfAspectRatio
              then (pdfWidth, fl (pdfWidth / imgAspectRatio))
              else (fl (pdfHeight * imgAspectRatio), pdfHeight));
          x = fl (fl (pdfWidth - width) / 2);
          y = fl (fl (pdfHeight - height) / 2)
      in \<lparr>img_x = x, img_y = y, img_width = width, img_height = height\<rparr>)"

text \<open>\<^verbatim>\<open>String.prototype.replace\<close> with a string pattern: the first occurrence of the pattern
  is replaced, the rest of the string is kept. (The replacement used here contains no
  \<^verbatim>\<open>$\<close>, so it is inserted literally.)\<close>

fun String_replace :: "string \<Rightarrow> string \<Rightarrow> string \<Rightarrow> string" where
  "String_replace [] pat rep = (if pat = [] then rep else [])"
| "String_replace (c # cs) pat rep =
     (if prefix pat (c # cs) then rep @ drop (length pat) (c # cs)
      else c # String_replace cs pat rep)"

text \<open>Line 164. \<^verbatim>\<open>state.file?.name\<close> is undefined without a file, and \<^verbatim>\<open>||\<close> takes the
  fallback for undefined and for the empty string.\<close>

definition fileName :: "File option \<Rightarrow> string" where
  "fileName f =
     (case f of
        None \<Rightarrow> ''converted_image-only.pdf''
      | Some source \<Rightarrow>
          (let replaced = String_replace (name source) ''.pdf'' ''_image-only.pdf''
           in if replaced = [] then ''converted_image-only.pdf'' else replaced))"

text \<open>What \<^verbatim>\<open>downloadImagePDF\<close> needs from the browser and from jsPDF:
  the page size of \<^verbatim>\<open>new jsPDF()\<close>; the decoding of a data URL by \<^verbatim>\<open>new Image()\<close>, which
  gives the pixel width and height when \<^verbatim>\<open>onload\<close> fires and \<open>None\<close> when it never fires
  (the source installs no \<^verbatim>\<open>onerror\<close>); whether \<^verbatim>\<open>addImage\<close> throws; whether \<^verbatim>\<open>save\<close>
  throws.\<close>

record jsPDFEnv =
  pageSize :: "real \<times> real"
  imageLoad :: "string \<Rightarrow> (nat \<times> nat) option"
  addImageThrows :: "string \<Rightarrow> Placement \<Rightarrow> bool"
  saveThrows :: "string \<Rightarrow> bool"

text \<open>The document under construction: a list of pages, each the list of images placed on
  it. \<^verbatim>\<open>new jsPDF()\<close> has one empty page, \<^verbatim>\<open>addPage\<close> appends an empty page and makes it
  current, \<^verbatim>\<open>addImage\<close> draws on the current (last) page.\<close>

type_synonym jsPDF = "(string \<times> Placement) list list"

definition new_jsPDF :: jsPDF where
  "new_jsPDF = [[]]"

definition addPage :: "jsPDF \<Rightarrow> jsPDF" where
  "addPage pdf = pdf @ [[]]"

definition addImage :: "string \<Rightarrow> Placement \<Rightarrow> jsPDF \<Rightarrow> jsPDF" where
  "addImage imgData p pdf = butlast pdf @ [last pdf @ [(imgData, p)]]"

text \<open>An awaited promise settles with a value, or never settles.\<close>

datatype 'a awaited = Resolved 'a | Unsettled

text \<open>The loop of lines 128-162 from index \<open>i\<close> on, over the pages that remain. An exception
  inside the \<^verbatim>\<open>onload\<close> callback is not raised in the \<^verbatim>\<open>try\<close> block: \<^verbatim>\<open>resolve\<close> is not
  reached and the awaited promise never settles.\<close>

fun addImages :: "jsPDFEnv \<Rightarrow> nat \<Rightarrow> string list \<Rightarrow> jsPDF \<Rightarrow> jsPDF awaited" where
  "addImages env i [] pdf = Resolved pdf"
| "addImages env i (imgData # rest) pdf =
     (let pdf1 = (if i > 0 then addPage pdf else pdf)
      in case imageLoad env imgData of
           None \<Rightarrow> Unsettled
         | Some (w, h) \<Rightarrow>
             (let p = img_onload (fst (pageSize env)) (snd (pageSize env)) w h
              in if addImageThrows env imgData p then Unsettled
                 else addImages env (i + 1) rest (addImage imgData p pdf1)))"

datatype download =
    EarlyReturn
  | Saved string jsPDF
  | Caught
  | Hangs

text \<open>\<^verbatim>\<open>downloadImagePDF\<close> (lines 120-171): what happened, and the toasts shown. The
  function returns a promise that never rejects; the session state is not written.\<close>

definition downloadImagePDF :: "jsPDFEnv \<Rightarrow> ConversionState \<Rightarrow> download \<times> toast list" where
  "downloadImagePDF env state =
     (if length (pages state) = 0 then (EarlyReturn, [])
      else case addImages env 0 (pages state) new_jsPDF of
             Unsettled \<Rightarrow> (Hangs, [toast_info CreatingPDF])
           | Resolved pdf \<Rightarrow>
               (let fileName = fileName (file state)
                in if saveThrows env fileName
                   then (Caught, [toast_info CreatingPDF, toast_error FailedToGenerate])
                   else (Saved fileName pdf, [toast_info CreatingPDF, toast_success Generated])))"


subsection \<open>The conversion run\<close>

text \<open>What one turn of the loop of lines 85-109 gets from pdf.js and the canvas for page
  \<open>pageNum\<close> at the given settings: the data URL of \<^verbatim>\<open>canvas.toDataURL\<close> after a
  successful render; no 2D context (\<^verbatim>\<open>canvas.getContext('2d')\<close> returned null); or a
  rejected promise of \<^verbatim>\<open>pdf.getPage\<close> or \<^verbatim>\<open>page.render\<close>.\<close>

datatype page_outcome = Rendered string | NoContext | Rejected

text \<open>Of the document returned by \<^verbatim>\<open>pdfjsLib.getDocument\<close> the run reads \<^verbatim>\<open>numPages\<close> and
  the pages, through the calls summarised by \<^typ>\<open>page_outcome\<close>.\<close>

record PDFDocumentProxy =
  numPages :: nat
  renderPage :: "nat \<Rightarrow> settings \<Rightarrow> page_outcome"

text \<open>While the run awaits, other handlers may run. The one that matters for the run is the
  quality selector: \<open>ev k\<close> is the value chosen, if any, while the run awaits the work of
  page \<open>k\<close> (\<open>ev 0\<close>: while it awaits the loading of the document).\<close>

definition deliver :: "quality option \<Rightarrow> ConversionState \<Rightarrow> ConversionState" where
  "deliver e prev = (case e of None \<Rightarrow> prev | Some v \<Rightarrow> onValueChange v prev)"

datatype loop_exit = LoopDone | LoopThrew

text \<open>The \<^verbatim>\<open>for\<close> loop of lines 85-109, from \<open>pageNum\<close> on. \<open>images\<close> is the local array,
  \<open>st\<close> the current state of the component, \<open>tr\<close> the states produced so far by the
  \<^verbatim>\<open>setState\<close> calls of the run. A rejected promise leaves the loop for the \<^verbatim>\<open>catch\<close>
  block; a missing context skips the body of \<^verbatim>\<open>if (context)\<close> and the loop goes on.
  The updater passed to \<^verbatim>\<open>setState\<close> copies \<^verbatim>\<open>images\<close> when it runs; it is taken to run before
  the next page is pushed, which matters for the states between the first and the last only.\<close>

function for_pages ::
  "PDFDocumentProxy \<Rightarrow> settings \<Rightarrow> (nat \<Rightarrow> quality option) \<Rightarrow> nat \<Rightarrow> nat \<Rightarrow> string list \<Rightarrow>
   ConversionState list \<Rightarrow> ConversionState \<Rightarrow>
   loop_exit \<times> string list \<times> ConversionState list \<times> ConversionState" where
  "for_pages pdf settings ev totalPages pageNum images tr st =
     (if pageNum \<le> totalPages then
        (let st1 = deliver (ev pageNum) st
         in case renderPage pdf pageNum settings of
              Rejected \<Rightarrow> (LoopThrew, images, tr, st1)
            | NoContext \<Rightarrow> for_pages pdf settings ev totalPages (pageNum + 1) images tr st1
            | Rendered imageData \<Rightarrow>
                (let images1 = images @ [imageData];
                     progress = fl (fl (real pageNum / real totalPages) * 100);
                     st2 = st1\<lparr>progress := progress, pages := images1\<rparr>
                 in for_pages pdf settings ev totalPages (pageNum + 1) images1 (tr @ [st2]) st2))
      else (LoopDone, images, tr, st))"
  by pat_completeness auto
termination
  by (relation "measure (\<lambda>(pdf, settings, ev, totalPages, pageNum, images, tr, st).
        Suc totalPages - pageNum)") auto

declare for_pages.simps [simp del]

text \<open>\<^verbatim>\<open>convertPDFToImages\<close> (lines 72-118), invoked in state \<open>state\<close>. \<open>getDocument\<close> stands
  for \<^verbatim>\<open>file.arrayBuffer()\<close> followed by \<^verbatim>\<open>pdfjsLib.getDocument\<close>, \<open>None\<close> when either
  promise is rejected. The result is the list of states produced by the \<^verbatim>\<open>setState\<close> calls
  of the run, in order, and the toasts shown. \<^verbatim>\<open>state.file\<close> and \<^verbatim>\<open>state.quality\<close> are read
  from the state the handler was invoked in.\<close>

definition convertPDFToImages ::
  "(File \<Rightarrow> PDFDocumentProxy option) \<Rightarrow> (nat \<Rightarrow> quality option) \<Rightarrow> ConversionState \<Rightarrow>
   ConversionState list \<times> toast list" where
  "convertPDFToImages getDocument ev state =
     (case file state of
        None \<Rightarrow> ([], [])
      | Some f \<Rightarrow>
          (let s0 = state\<lparr>status := processing, progress := 0, pages := []\<rparr>;
               s1 = deliver (ev 0) s0
           in case getDocument f of
                None \<Rightarrow>
                  ([s0, s1\<lparr>status := error\<rparr>],
                   [toast_info StartingConversion, toast_error FailedToConvert])
              | Some pdf \<Rightarrow>
                  (let totalPages = numPages pdf;
                       settings = qualitySettings (quality state)
                   in case for_pages pdf settings ev totalPages 1 [] [s0] s1 of
                        (LoopDone, images, tr, st) \<Rightarrow>
                          (tr @ [st\<lparr>status := completed, pages := images\<rparr>],
                           [toast_info StartingConversion, toast_success (Converted totalPages)])
                      | (LoopThrew, images, tr, st) \<Rightarrow>
                          (tr @ [st\<lparr>status := error\<rparr>],
                           [toast_info StartingConversion, toast_error FailedToConvert]))))"

text \<open>The session after a run: the last state produced, or the state of the invocation when
  the run wrote none.\<close>

definition session_after :: "ConversionState \<Rightarrow> ConversionState list \<times> toast list \<Rightarrow> ConversionState" where
  "session_after state run = last (state # fst run)"

text \<open>The data URLs of the pages \<open>ps\<close>, in order, of those pages that are rendered at
  settings \<open>s\<close>: used below to say what a run accumulates.\<close>

definition dataURLs :: "PDFDocumentProxy \<Rightarrow> settings \<Rightarrow> nat list \<Rightarrow> string list" where
  "dataURLs pdf s ps =
     concat (map (\<lambda>p. case renderPage pdf p s of
                          Rendered img \<Rightarrow> [img] | NoContext \<Rightarrow> [] | Rejected \<Rightarrow> []) ps)"

subsection \<open>Example sessions and documents\<close>

definition report_pdf :: File where
  "report_pdf = \<lparr>name = ''report.pdf'', type = ''application/pdf''\<rparr>"

definition other_pdf :: File where
  "other_pdf = \<lparr>name = ''other.pdf'', type = ''application/pdf''\<rparr>"

text \<open>A session with a source loaded, and the same session in the middle of a run.\<close>

definition loaded :: ConversionState where
  "loaded = \<lparr>file = Some report_pdf, pages = [], progress = 0, status = idle, quality = high\<rparr>"

definition midrun :: ConversionState where
  "midrun = \<lparr>file = Some report_pdf, pages = [''data:1''], progress = 50, status = processing,
              quality = high\<rparr>"

text \<open>An A4 page in millimetres, images of 1600 by 1000 pixels, a library that does not
  throw.\<close>

definition a4 :: jsPDFEnv where
  "a4 = \<lparr>pageSize = (210, 297), imageLoad = (\<lambda>imgData. Some (1600, 1000)),
          addImageThrows = (\<lambda>imgData p. False), saveThrows = (\<lambda>fileName. False)\<rparr>"


text \<open>Documents for which the canvas of one page gets no 2D context.\<close>

definition last_page_without_context :: PDFDocumentProxy where
  "last_page_without_context =
     \<lparr>numPages = 2,
      renderPage = (\<lambda>pageNum s. if pageNum = 2 then NoContext else Rendered ''data:1'')\<rparr>"

definition second_page_without_context :: PDFDocumentProxy where
  "second_page_without_context =
     \<lparr>numPages = 3,
      renderPage = (\<lambda>pageNum s. if pageNum = 2 then NoContext
                                 else if pageNum = 1 then Rendered ''data:1''
                                 else Rendered ''data:3'')\<rparr>"

definition first_page_without_context :: PDFDocumentProxy where
  "first_page_without_context =
     \<lparr>numPages = 2,
      renderPage = (\<lambda>pageNum s. if pageNum = 1 then NoContext else Rendered ''data:2'')\<rparr>"




text \<open>A document whose data URLs show the scale they were rendered at.\<close>

definition scale_marked :: PDFDocumentProxy where
  "scale_marked =
     \<lparr>numPages = 2,
      renderPage = (\<lambda>pageNum s. Rendered (if scale s = 2 then ''data:2x'' else ''data:1x''))\<rparr>"

section \<open>Properties\<close>

subsection \<open>Rounding\<close>

lemma expo_bounds:
  assumes "0 < x"
  shows "2 powi expo x \<le> x" and "x < 2 powi (expo x + 1)"
proof -
  have "2 powi expo x \<le> x \<and> x < 2 powi (expo x + 1)"
  proof (cases "1 \<le> x")
    case True
    define n where "n = \<lfloor>x\<rfloor>"
    define b where "b = bitlen n"
    from True have n: "0 < n" by (simp add: n_def)
    from bitlen_bounds [OF n] have lo: "2 ^ nat (b - 1) \<le> n" and hi: "n < 2 ^ nat b"
      by (simp_all add: b_def)
    from n have b: "1 \<le> b" using bitlen_ge_iff_power [of 1 n] by (simp add: b_def)
    have e: "expo x = b - 1" using True by (simp add: expo_def n_def b_def)
    have "real_of_int (2 ^ nat (b - 1)) \<le> real_of_int n" using lo by (simp only: of_int_le_iff)
    also have "real_of_int n \<le> x" by (simp add: n_def)
    finally have 1: "2 powi (b - 1) \<le> x" using b by (simp add: power_int_nonneg_exp)
    from hi have "n + 1 \<le> 2 ^ nat b" by simp
    then have "real_of_int (n + 1) \<le> real_of_int (2 ^ nat b)" by (simp only: of_int_le_iff)
    moreover have "x < real_of_int (n + 1)" by (simp add: n_def)
    ultimately have 2: "x < 2 powi b" using b by (simp add: power_int_nonneg_exp)
    from 1 2 e show ?thesis by simp
  next
    case False
    define k where "k = \<lceil>1 / x\<rceil> - 1"
    define b where "b = bitlen k"
    from False assms have "1 < 1 / x" by simp
    then have "1 < \<lceil>1 / x\<rceil>" by (simp add: less_ceiling_iff)
    then have k: "0 < k" by (simp add: k_def)
    from bitlen_bounds [OF k] have lo: "2 ^ nat (b - 1) \<le> k" and hi: "k < 2 ^ nat b"
      by (simp_all add: b_def)
    from k have b: "1 \<le> b" using bitlen_ge_iff_power [of 1 k] by (simp add: b_def)
    have e: "expo x = - b" using False by (simp add: expo_def k_def b_def)
    have kx: "real_of_int k < 1 / x" unfolding k_def by linarith
    have xk: "1 / x \<le> real_of_int (k + 1)" unfolding k_def by simp
    from hi have "k + 1 \<le> 2 ^ nat b" by simp
    then have "real_of_int (k + 1) \<le> real_of_int (2 ^ nat b)" by (simp only: of_int_le_iff)
    with xk have "1 / x \<le> 2 ^ nat b" by simp
    with assms have "1 / 2 ^ nat b \<le> x"
      by (simp add: field_simps)
    then have 1: "2 powi (- b) \<le> x" using b
      by (simp add: power_int_minus power_int_nonneg_exp field_simps)
    have "real_of_int (2 ^ nat (b - 1)) \<le> real_of_int k" using lo by (simp only: of_int_le_iff)
    then have "(2::real) ^ nat (b - 1) \<le> real_of_int k" by simp
    with kx have "2 ^ nat (b - 1) < 1 / x" by linarith
    with assms have "x < 1 / 2 ^ nat (b - 1)"
      by (simp add: field_simps)
    moreover have "2 powi (- b + 1) = 1 / (2::real) ^ nat (b - 1)"
    proof -
      have "- b + 1 = - (b - 1)" by simp
      then have "(2::real) powi (- b + 1) = 2 powi (- (b - 1))" by simp
      also have "\<dots> = 1 / 2 powi (b - 1)" by (rule power_int_minus_divide)
      also have "\<dots> = 1 / 2 ^ nat (b - 1)" using b by (simp add: power_int_nonneg_exp)
      finally show ?thesis .
    qed
    ultimately have 2: "x < 2 powi (- b + 1)" by simp
    from 1 2 e show ?thesis by simp
  qed
  then show "2 powi expo x \<le> x" and "x < 2 powi (expo x + 1)" by simp_all
qed

lemma ulp_pos: "0 < ulp x"
  by (simp add: ulp_def)

lemma ulp_neg [simp]: "ulp (- x) = ulp x"
  by (simp add: ulp_def)

lemma powi2_split: "(2::real) powi (a + b) = 2 powi a * 2 powi b"
  by (rule power_int_add) simp

lemma ulp_bounds:
  assumes "0 < x"
  shows "2 ^ 52 * ulp x \<le> x" and "x < 2 ^ 53 * ulp x"
proof -
  have "expo x = (expo x - 52) + 52" by simp
  then have "(2::real) powi expo x = 2 powi ((expo x - 52) + 52)" by (rule arg_cong)
  also have "\<dots> = 2 powi (expo x - 52) * 2 powi 52" by (rule powi2_split)
  finally have a: "2 powi expo x = 2 ^ 52 * ulp x" using assms by (simp add: ulp_def)
  have "expo x + 1 = (expo x - 52) + 53" by simp
  then have "(2::real) powi (expo x + 1) = 2 powi ((expo x - 52) + 53)" by (rule arg_cong)
  also have "\<dots> = 2 powi (expo x - 52) * 2 powi 53" by (rule powi2_split)
  finally have b: "2 powi (expo x + 1) = 2 ^ 53 * ulp x" using assms by (simp add: ulp_def)
  from expo_bounds [OF assms] a b show "2 ^ 52 * ulp x \<le> x" and "x < 2 ^ 53 * ulp x"
    by simp_all
qed

lemma powi2_less_D: "(2::real) powi a < 2 powi b \<Longrightarrow> a < b"
  using power_int_increasing [of b a "2::real"] by (cases "a < b") auto

lemma ulp_unique:
  assumes "0 < x" and "2 ^ 52 * 2 powi k \<le> x" and "x < 2 ^ 53 * 2 powi k"
  shows "ulp x = 2 powi k"
proof -
  have a: "(2::real) powi (k + 52) = 2 ^ 52 * 2 powi k"
    by (simp add: powi2_split)
  have b: "(2::real) powi (k + 53) = 2 ^ 53 * 2 powi k"
    by (simp add: powi2_split)
  from expo_bounds [OF assms(1)] assms(2,3) a b
  have 1: "(2::real) powi (k + 52) < 2 powi (expo x + 1)" and 2: "(2::real) powi expo x < 2 powi (k + 53)"
    by linarith+
  from 1 have "k + 52 < expo x + 1" by (rule powi2_less_D)
  moreover from 2 have "expo x < k + 53" by (rule powi2_less_D)
  ultimately have "expo x - 52 = k" by simp
  with assms(1) show ?thesis by (simp add: ulp_def)
qed

lemma rne_cases: "rne y = \<lfloor>y\<rfloor> \<or> rne y = \<lfloor>y\<rfloor> + 1"
  by (simp add: rne_def Let_def)

lemma rne_err: "\<bar>real_of_int (rne y) - y\<bar> \<le> 1 / 2"
proof -
  have "real_of_int \<lfloor>y\<rfloor> \<le> y" "y < real_of_int \<lfloor>y\<rfloor> + 1" by linarith+
  then show ?thesis by (auto simp add: rne_def Let_def)
qed

lemma rne_int [simp]: "rne (real_of_int n) = n"
  by (simp add: rne_def Let_def)

lemma rne_mono:
  assumes "y \<le> z"
  shows "rne y \<le> rne z"
proof -
  from assms have le: "\<lfloor>y\<rfloor> \<le> \<lfloor>z\<rfloor>" by (rule floor_mono)
  show ?thesis
  proof (cases "\<lfloor>y\<rfloor> = \<lfloor>z\<rfloor>")
    case True
    with assms show ?thesis by (auto simp add: rne_def Let_def)
  next
    case False
    with le have "\<lfloor>y\<rfloor> + 1 \<le> \<lfloor>z\<rfloor>" by simp
    moreover have "rne y \<le> \<lfloor>y\<rfloor> + 1" using rne_cases [of y] by auto
    moreover have "\<lfloor>z\<rfloor> \<le> rne z" using rne_cases [of z] by auto
    ultimately show ?thesis by linarith
  qed
qed

lemma rne_ge: "real_of_int a \<le> y \<Longrightarrow> a \<le> rne y"
  using rne_mono [of "real_of_int a" y] by simp

lemma rne_le: "y \<le> real_of_int b \<Longrightarrow> rne y \<le> b"
  using rne_mono [of y "real_of_int b"] by simp

lemma fl_0 [simp]: "fl 0 = 0"
  by (simp add: fl_def)

lemma fl_pos_eq: "0 < x \<Longrightarrow> fl x = real_of_int (rne (x / ulp x)) * ulp x"
  by (simp add: fl_def)

lemma fl_range:
  assumes "0 < x"
  shows "2 ^ 52 \<le> rne (x / ulp x)" and "rne (x / ulp x) \<le> 2 ^ 53"
proof -
  from ulp_bounds [OF assms] ulp_pos [of x]
  have "2 ^ 52 \<le> x / ulp x" and "x / ulp x \<le> 2 ^ 53"
    by (simp_all add: field_simps)
  then have a: "real_of_int (2 ^ 52) \<le> x / ulp x" and b: "x / ulp x \<le> real_of_int (2 ^ 53)"
    by simp_all
  from a show "2 ^ 52 \<le> rne (x / ulp x)" by (rule rne_ge)
  from b show "rne (x / ulp x) \<le> 2 ^ 53" by (rule rne_le)
qed

lemma fl_bounds:
  assumes "0 < x"
  shows "2 ^ 52 * ulp x \<le> fl x" and "fl x \<le> 2 ^ 53 * ulp x"
proof -
  from fl_range [OF assms]
  have "real_of_int (2 ^ 52) \<le> real_of_int (rne (x / ulp x))"
    and "real_of_int (rne (x / ulp x)) \<le> real_of_int (2 ^ 53)"
    by (simp_all only: of_int_le_iff)
  then have "2 ^ 52 \<le> real_of_int (rne (x / ulp x))" and "real_of_int (rne (x / ulp x)) \<le> 2 ^ 53"
    by simp_all
  with ulp_pos [of x] show "2 ^ 52 * ulp x \<le> fl x" and "fl x \<le> 2 ^ 53 * ulp x"
    by (simp_all add: fl_pos_eq [OF assms])
qed

lemma fl_pos:
  assumes "0 < x"
  shows "0 < fl x"
proof -
  have "0 < 2 ^ 52 * ulp x" using ulp_pos [of x] by simp
  with fl_bounds(1) [OF assms] show ?thesis by linarith
qed

lemma fl_err:
  assumes "0 < x"
  shows "\<bar>fl x - x\<bar> \<le> x / 2 ^ 53"
proof -
  have u: "0 < ulp x" by (rule ulp_pos)
  have "fl x - x = (real_of_int (rne (x / ulp x)) - x / ulp x) * ulp x"
    using u by (simp add: fl_pos_eq [OF assms] field_simps)
  then have "\<bar>fl x - x\<bar> = \<bar>real_of_int (rne (x / ulp x)) - x / ulp x\<bar> * ulp x"
    using u by (simp add: abs_mult)
  also have "\<dots> \<le> 1 / 2 * ulp x"
    using rne_err [of "x / ulp x"] u by (intro mult_right_mono) simp_all
  also have "\<dots> \<le> x / 2 ^ 53"
    using ulp_bounds(1) [OF assms] by simp
  finally show ?thesis .
qed

lemma expo_mono:
  assumes "0 < x" "x \<le> y"
  shows "expo x \<le> expo y"
proof -
  from assms have y: "0 < y" by simp
  from expo_bounds(1) [OF assms(1)] expo_bounds(2) [OF y] assms(2)
  have "(2::real) powi expo x < 2 powi (expo y + 1)" by linarith
  then have "expo x < expo y + 1" by (rule powi2_less_D)
  then show ?thesis by simp
qed

lemma fl_mono:
  assumes "0 < x" "x \<le> y"
  shows "fl x \<le> fl y"
proof -
  from assms have y: "0 < y" by simp
  from expo_mono [OF assms] consider "expo x = expo y" | "expo x + 1 \<le> expo y" by linarith
  then show ?thesis
  proof cases
    case 1
    with assms y have u: "ulp y = ulp x" by (simp add: ulp_def)
    have "x / ulp x \<le> y / ulp x" using assms ulp_pos [of x] by (simp add: divide_right_mono)
    then have "rne (x / ulp x) \<le> rne (y / ulp x)" by (rule rne_mono)
    then have "real_of_int (rne (x / ulp x)) \<le> real_of_int (rne (y / ulp x))"
      by (simp only: of_int_le_iff)
    with ulp_pos [of x] show ?thesis
      by (simp add: fl_pos_eq [OF assms(1)] fl_pos_eq [OF y] u)
  next
    case 2
    have "(2::real) powi (expo x + 1) \<le> 2 powi expo y"
      using 2 by (intro power_int_increasing) simp_all
    moreover have "2 ^ 53 * ulp x = 2 powi (expo x + 1)"
    proof -
      have "expo x + 1 = (expo x - 52) + 53" by simp
      then have "(2::real) powi (expo x + 1) = 2 powi ((expo x - 52) + 53)" by (rule arg_cong)
      also have "\<dots> = 2 powi (expo x - 52) * 2 powi 53" by (rule powi2_split)
      finally show ?thesis using assms by (simp add: ulp_def)
    qed
    moreover have "2 ^ 52 * ulp y = 2 powi expo y"
    proof -
      have "expo y = (expo y - 52) + 52" by simp
      then have "(2::real) powi expo y = 2 powi ((expo y - 52) + 52)" by (rule arg_cong)
      also have "\<dots> = 2 powi (expo y - 52) * 2 powi 52" by (rule powi2_split)
      finally show ?thesis using y by (simp add: ulp_def)
    qed
    ultimately have "2 ^ 53 * ulp x \<le> 2 ^ 52 * ulp y" by simp
    with fl_bounds(2) [OF assms(1)] fl_bounds(1) [OF y] show ?thesis by linarith
  qed
qed

lemma ulp_power_int: "\<exists>k. ulp x = 2 powi k"
  by (auto simp add: ulp_def)

lemma fl_idem:
  assumes "0 < x"
  shows "fl (fl x) = fl x"
proof -
  define n where "n = rne (x / ulp x)"
  obtain k where k: "ulp x = 2 powi k" using ulp_power_int by blast
  have fx: "fl x = real_of_int n * ulp x" by (simp add: fl_pos_eq [OF assms] n_def)
  have p: "0 < fl x" using assms by (rule fl_pos)
  have u: "0 < ulp x" by (rule ulp_pos)
  from fl_range [OF assms] have lo: "2 ^ 52 \<le> n" and hi: "n \<le> 2 ^ 53" by (simp_all add: n_def)
  show ?thesis
  proof (cases "n = 2 ^ 53")
    case True
    have v: "fl x = 2 ^ 53 * ulp x" using fx True by simp
    have "ulp (fl x) = 2 powi (k + 1)"
    proof (rule ulp_unique [OF p])
      show "2 ^ 52 * 2 powi (k + 1) \<le> fl x" using v k by (simp add: powi2_split)
      show "fl x < 2 ^ 53 * 2 powi (k + 1)" using v k u by (simp add: powi2_split)
    qed
    then have w: "ulp (fl x) = 2 * ulp x" using k by (simp add: powi2_split)
    have "fl x / ulp (fl x) = real_of_int (2 ^ 52)" using v w u by simp
    then have r: "rne (fl x / ulp (fl x)) = 2 ^ 52" by (simp only: rne_int)
    have "fl (fl x) = real_of_int (rne (fl x / ulp (fl x))) * ulp (fl x)"
      by (rule fl_pos_eq [OF p])
    also have "\<dots> = real_of_int (2 ^ 52) * (2 * ulp x)" by (subst r, subst w, rule refl)
    also have "\<dots> = fl x" by (simp add: v)
    finally show ?thesis .
  next
    case False
    with hi have "n < 2 ^ 53" by simp
    then have "real_of_int n < real_of_int (2 ^ 53)" by (simp only: of_int_less_iff)
    then have hi': "real_of_int n < 2 ^ 53" by simp
    from lo have "real_of_int (2 ^ 52) \<le> real_of_int n" by (simp only: of_int_le_iff)
    then have lo': "2 ^ 52 \<le> real_of_int n" by simp
    have "ulp (fl x) = 2 powi k"
    proof (rule ulp_unique [OF p])
      show "2 ^ 52 * 2 powi k \<le> fl x" using fx lo' u k by simp
      show "fl x < 2 ^ 53 * 2 powi k" using fx hi' u k by simp
    qed
    then have w: "ulp (fl x) = ulp x" using k by simp
    have "fl x / ulp (fl x) = real_of_int n" using fx w u by simp
    then have r: "rne (fl x / ulp (fl x)) = n" by (simp only: rne_int)
    have "fl (fl x) = real_of_int (rne (fl x / ulp (fl x))) * ulp (fl x)"
      by (rule fl_pos_eq [OF p])
    also have "\<dots> = real_of_int n * ulp x" by (subst r, subst w, rule refl)
    also have "\<dots> = fl x" by (simp add: fx)
    finally show ?thesis .
  qed
qed

lemma fl_nonneg: "0 \<le> x \<Longrightarrow> 0 \<le> fl x"
  using fl_pos [of x] by (cases "x = 0") auto

lemma fl_mono0:
  assumes "0 \<le> x" "x \<le> y"
  shows "fl x \<le> fl y"
proof (cases "x = 0")
  case True
  with assms fl_nonneg [of y] show ?thesis by simp
next
  case False
  with assms have "0 < x" by simp
  then show ?thesis using assms(2) by (rule fl_mono)
qed

lemma fl_1 [simp]: "fl 1 = 1"
  by (simp add: fl_def ulp_def expo_def rne_def Let_def compute_bitlen)

lemma fl_100 [simp]: "fl 100 = 100"
  by (simp add: fl_def ulp_def expo_def rne_def Let_def compute_bitlen)

text \<open>The progress written after page \<open>k\<close> of \<open>N\<close> does not decrease with \<open>k\<close>.\<close>

lemma progress_mono:
  assumes "j \<le> k"
  shows "fl (fl (real j / real N) * 100) \<le> fl (fl (real k / real N) * 100)"
proof -
  from assms have "real j / real N \<le> real k / real N" by (simp add: divide_right_mono)
  then have "fl (real j / real N) \<le> fl (real k / real N)" by (intro fl_mono0) simp_all
  moreover have "0 \<le> fl (real j / real N)" by (intro fl_nonneg) simp
  ultimately show ?thesis by (intro fl_mono0) simp_all
qed

text \<open>The equations that evaluate \<open>fl\<close> on a numeral.\<close>

lemmas fl_eval = fl_def ulp_def expo_def rne_def Let_def compute_bitlen


lemma eps_pos: "0 < eps" and eps_small: "eps \<le> 1 / 3"
  by (simp_all add: eps_def)

lemma fl_rel:
  assumes "0 < x"
  shows "x * (1 - eps) \<le> fl x" and "fl x \<le> x * (1 + eps)"
proof -
  from fl_err [OF assms] have "\<bar>fl x - x\<bar> \<le> x * eps" by (simp add: eps_def)
  then show "x * (1 - eps) \<le> fl x" and "fl x \<le> x * (1 + eps)"
    by (simp_all add: abs_le_iff algebra_simps)
qed

lemma fl_above:
  assumes "0 < a" "0 < r" "fl r < fl a"
  shows "r \<le> fl a"
proof (rule ccontr)
  assume "\<not> r \<le> fl a"
  then have "fl a \<le> r" by simp
  with fl_pos [OF assms(1)] have "fl (fl a) \<le> fl r" by (rule fl_mono)
  with fl_idem [OF assms(1)] assms(3) show False by simp
qed

lemma rel_twice:
  fixes a b c u :: real
  assumes u: "0 \<le> u" "u \<le> 1 / 3" and a: "0 < a"
    and b: "a * (1 - u) \<le> b" "b \<le> a * (1 + u)"
    and c: "b * (1 - u) \<le> c" "c \<le> b * (1 + u)"
  shows "a * (1 - 3 * u) \<le> c" and "c \<le> a * (1 + 3 * u)"
proof -
  have uu: "0 \<le> u * u" "u * u \<le> u" using u by (simp_all add: mult_left_le)
  have "b * (1 + u) \<le> a * (1 + u) * (1 + u)" using b(2) u by (intro mult_right_mono) simp_all
  also have "\<dots> = a * (1 + 2 * u + u * u)" by (simp add: algebra_simps)
  also have "\<dots> \<le> a * (1 + 3 * u)" using a uu by (intro mult_left_mono) simp_all
  finally show "c \<le> a * (1 + 3 * u)" using c(2) by simp
  have "a * (1 - 3 * u) \<le> a * (1 - 2 * u + u * u)" using a uu u by (intro mult_left_mono) simp_all
  also have "\<dots> = a * (1 - u) * (1 - u)" by (simp add: algebra_simps)
  also have "\<dots> \<le> b * (1 - u)" using b(1) u by (intro mult_right_mono) simp_all
  finally show "a * (1 - 3 * u) \<le> c" using c(1) by simp
qed

lemma rel_quot:
  fixes a b d u p :: real
  assumes u: "0 \<le> u" "u \<le> 1 / 3" and a: "0 < a" and p: "0 < p"
    and b: "a * (1 - u) \<le> b" "b \<le> a * (1 + u)"
    and d: "p / b * (1 - u) \<le> d" "d \<le> p / b * (1 + u)"
  shows "a * (1 - 3 * u) \<le> p / d" and "p / d \<le> a * (1 + 3 * u)"
proof -
  have uu: "0 \<le> u * u" "3 * (u * u) \<le> u"
    using u mult_left_mono [of u "1 / 3" u] by simp_all
  have "0 < a * (1 - u)" using a u by simp
  with b(1) have bpos: "0 < b" by linarith
  with p u have "0 < p / b * (1 - u)" by simp
  with d(1) have dpos: "0 < d" by linarith
  have pb: "0 < p / b" using p bpos by simp
  have "(1 + 3 * u) * (1 - u) = 1 + 2 * u - 3 * (u * u)" by (simp add: algebra_simps)
  with uu have q1: "1 + u \<le> (1 + 3 * u) * (1 - u)" by linarith
  have "(1 - 3 * u) * (1 + u) = 1 - 2 * u - 3 * (u * u)" by (simp add: algebra_simps)
  with uu u have q2: "(1 - 3 * u) * (1 + u) \<le> 1 - u" by linarith
  have "b \<le> a * (1 + u)" by (rule b(2))
  also have "a * (1 + u) \<le> a * ((1 + 3 * u) * (1 - u))"
    using a q1 by (intro mult_left_mono) simp_all
  finally have "b \<le> a * (1 + 3 * u) * (1 - u)" by (simp add: mult.assoc)
  then have "p / b * b \<le> p / b * (a * (1 + 3 * u) * (1 - u))"
    using pb by (intro mult_left_mono) simp_all
  then have "p \<le> a * (1 + 3 * u) * (p / b * (1 - u))" using bpos by (simp add: mult_ac)
  also have "\<dots> \<le> a * (1 + 3 * u) * d" using d(1) a u by (intro mult_left_mono) simp_all
  finally show "p / d \<le> a * (1 + 3 * u)" using dpos by (simp add: field_simps)
  have "a * ((1 - 3 * u) * (1 + u)) \<le> a * (1 - u)"
    using a q2 by (intro mult_left_mono) simp_all
  with b(1) have "a * (1 - 3 * u) * (1 + u) \<le> b" by (simp add: mult.assoc)
  then have "p / b * (a * (1 - 3 * u) * (1 + u)) \<le> p / b * b"
    using pb by (intro mult_left_mono) simp_all
  then have "a * (1 - 3 * u) * (p / b * (1 + u)) \<le> p" using bpos by (simp add: mult_ac)
  moreover have "a * (1 - 3 * u) * d \<le> a * (1 - 3 * u) * (p / b * (1 + u))"
    using d(2) a u by (intro mult_left_mono) simp_all
  ultimately have "a * (1 - 3 * u) * d \<le> p" by linarith
  then show "a * (1 - 3 * u) \<le> p / d" using dpos by (simp add: field_simps)
qed

subsection \<open>The loop of the conversion run\<close>

lemma pages_deliver [simp]: "pages (deliver e st) = pages st"
  and progress_deliver [simp]: "progress (deliver e st) = progress st"
  and status_deliver [simp]: "status (deliver e st) = status st"
  and file_deliver [simp]: "file (deliver e st) = file st"
  by (cases e; simp add: deliver_def onValueChange_def)+

lemma for_pages_exit:
  "\<not> k \<le> N \<Longrightarrow> for_pages pdf s ev N k imgs tr st = (LoopDone, imgs, tr, st)"
  by (subst for_pages.simps) simp

lemma for_pages_Rejected:
  "k \<le> N \<Longrightarrow> renderPage pdf k s = Rejected \<Longrightarrow>
   for_pages pdf s ev N k imgs tr st = (LoopThrew, imgs, tr, deliver (ev k) st)"
  by (subst for_pages.simps) (simp add: Let_def)

lemma for_pages_NoContext:
  "k \<le> N \<Longrightarrow> renderPage pdf k s = NoContext \<Longrightarrow>
   for_pages pdf s ev N k imgs tr st = for_pages pdf s ev N (Suc k) imgs tr (deliver (ev k) st)"
  by (subst for_pages.simps) (simp add: Let_def)

lemma for_pages_Rendered:
  "k \<le> N \<Longrightarrow> renderPage pdf k s = Rendered img \<Longrightarrow>
   for_pages pdf s ev N k imgs tr st =
     for_pages pdf s ev N (Suc k) (imgs @ [img])
       (tr @ [deliver (ev k) st\<lparr>progress := fl (fl (real k / real N) * 100), pages := imgs @ [img]\<rparr>])
       (deliver (ev k) st\<lparr>progress := fl (fl (real k / real N) * 100), pages := imgs @ [img]\<rparr>)"
  by (subst for_pages.simps) (simp add: Let_def)

text \<open>The proof rule of the loop: an invariant \<open>I\<close> of the loop variables that every turn
  keeps gives \<open>Q\<close> at both exits.\<close>

lemma for_pages_rule:
  assumes run: "for_pages pdf s ev N k imgs tr st = (ex, imgs', tr', st')"
    and init: "I k imgs tr st"
    and nocontext: "\<And>k imgs tr st. k \<le> N \<Longrightarrow> renderPage pdf k s = NoContext \<Longrightarrow> I k imgs tr st \<Longrightarrow>
                 I (Suc k) imgs tr (deliver (ev k) st)"
    and rendered: "\<And>k imgs tr st img. k \<le> N \<Longrightarrow> renderPage pdf k s = Rendered img \<Longrightarrow> I k imgs tr st \<Longrightarrow>
                 I (Suc k) (imgs @ [img])
                   (tr @ [deliver (ev k) st\<lparr>progress := fl (fl (real k / real N) * 100), pages := imgs @ [img]\<rparr>])
                   (deliver (ev k) st\<lparr>progress := fl (fl (real k / real N) * 100), pages := imgs @ [img]\<rparr>)"
    and rejected: "\<And>k imgs tr st. k \<le> N \<Longrightarrow> renderPage pdf k s = Rejected \<Longrightarrow> I k imgs tr st \<Longrightarrow>
                 Q LoopThrew imgs tr (deliver (ev k) st)"
    and finish: "\<And>k imgs tr st. \<not> k \<le> N \<Longrightarrow> I k imgs tr st \<Longrightarrow> Q LoopDone imgs tr st"
  shows "Q ex imgs' tr' st'"
  using run init
proof (induction "Suc N - k" arbitrary: k imgs tr st)
  case 0
  then have "\<not> k \<le> N" by simp
  with 0 finish show ?case by (auto simp add: for_pages_exit)
next
  case (Suc n)
  then have k: "k \<le> N" and n: "n = Suc N - Suc k" by simp_all
  show ?case
  proof (cases "renderPage pdf k s")
    case (Rendered img)
    from Suc.prems(1) have
      "for_pages pdf s ev N (Suc k) (imgs @ [img])
         (tr @ [deliver (ev k) st\<lparr>progress := fl (fl (real k / real N) * 100), pages := imgs @ [img]\<rparr>])
         (deliver (ev k) st\<lparr>progress := fl (fl (real k / real N) * 100), pages := imgs @ [img]\<rparr>) = (ex, imgs', tr', st')"
      by (simp add: for_pages_Rendered [OF k Rendered])
    from Suc.hyps(1) [OF n this rendered [OF k Rendered Suc.prems(2)]] show ?thesis .
  next
    case NoContext
    from Suc.prems(1) have
      "for_pages pdf s ev N (Suc k) imgs tr (deliver (ev k) st) = (ex, imgs', tr', st')"
      by (simp add: for_pages_NoContext [OF k NoContext])
    from Suc.hyps(1) [OF n this nocontext [OF k NoContext Suc.prems(2)]] show ?thesis .
  next
    case Rejected
    from Suc.prems(1) rejected [OF k Rejected Suc.prems(2)] show ?thesis
      by (simp add: for_pages_Rejected [OF k Rejected])
  qed
qed


lemma for_pages_bound:
  assumes "for_pages pdf s ev N k imgs tr st = (ex, imgs', tr', st')"
    and "pages st = imgs" "length imgs < k" "k \<le> Suc N" "\<forall>t\<in>set tr. length (pages t) \<le> N"
  shows "pages st' = imgs' \<and> length imgs' \<le> N \<and> (\<forall>t\<in>set tr'. length (pages t) \<le> N)"
  by (rule for_pages_rule [OF assms(1),
        where I = "\<lambda>k imgs tr st. pages st = imgs \<and> length imgs < k \<and> k \<le> Suc N \<and> (\<forall>t\<in>set tr. length (pages t) \<le> N)"
        and Q = "\<lambda>ex imgs tr st. pages st = imgs \<and> length imgs \<le> N \<and> (\<forall>t\<in>set tr. length (pages t) \<le> N)"])
     (use assms in auto)

lemma for_pages_sorted:
  assumes "for_pages pdf s ev N k imgs tr st = (ex, imgs', tr', st')"
    and "sorted (map progress tr)" "\<forall>t\<in>set tr. progress t \<le> progress st"
        "1 \<le> k" "progress st \<le> fl (fl (real (k - 1) / real N) * 100)"
  shows "sorted (map progress tr') \<and> (\<forall>t\<in>set tr'. progress t \<le> progress st')"
proof (rule for_pages_rule [OF assms(1),
        where I = "\<lambda>k imgs tr st. sorted (map progress tr) \<and> (\<forall>t\<in>set tr. progress t \<le> progress st) \<and>
                     1 \<le> k \<and> progress st \<le> fl (fl (real (k - 1) / real N) * 100)"
        and Q = "\<lambda>ex imgs tr st. sorted (map progress tr) \<and> (\<forall>t\<in>set tr. progress t \<le> progress st)"],
       goal_cases)
  case 1
  from assms show ?case by simp
next
  case (2 k imgs tr st)
  have "fl (fl (real (k - 1) / real N) * 100) \<le> fl (fl (real k / real N) * 100)"
    by (rule progress_mono) simp
  with 2 show ?case by auto
next
  case (3 k imgs tr st img)
  have le: "fl (fl (real (k - 1) / real N) * 100) \<le> fl (fl (real k / real N) * 100)"
    by (rule progress_mono) simp
  with 3 have "\<forall>t\<in>set tr. progress t \<le> fl (fl (real k / real N) * 100)" by fastforce
  with 3 show ?case by (auto simp add: sorted_append)
next
  case (4 k imgs tr st)
  then show ?case by simp
next
  case (5 k imgs tr st)
  then show ?case by simp
qed

lemma dataURLs_snoc:
  "dataURLs pdf s (ps @ [p]) =
     dataURLs pdf s ps @ (case renderPage pdf p s of Rendered img \<Rightarrow> [img] | NoContext \<Rightarrow> [] | Rejected \<Rightarrow> [])"
  by (simp add: dataURLs_def)

lemma deliver_None [simp]: "deliver None st = st"
  by (simp add: deliver_def)

lemma for_pages_images:
  assumes "for_pages pdf s ev N 1 [] tr st = (ex, imgs', tr', st')"
  shows "(ex = LoopDone \<and> imgs' = dataURLs pdf s [1..<Suc N] \<and>
            (\<forall>p. 1 \<le> p \<and> p \<le> N \<longrightarrow> renderPage pdf p s \<noteq> Rejected)) \<or>
         (ex = LoopThrew \<and>
            (\<exists>j. 1 \<le> j \<and> j \<le> N \<and> renderPage pdf j s = Rejected \<and>
                 (\<forall>p. 1 \<le> p \<and> p < j \<longrightarrow> renderPage pdf p s \<noteq> Rejected) \<and>
                 imgs' = dataURLs pdf s [1..<j]))"
proof (rule for_pages_rule [OF assms,
        where I = "\<lambda>k imgs tr st. 1 \<le> k \<and> k \<le> Suc N \<and> imgs = dataURLs pdf s [1..<k] \<and>
                     (\<forall>p. 1 \<le> p \<and> p < k \<longrightarrow> renderPage pdf p s \<noteq> Rejected)"],
       goal_cases)
  case 1
  show ?case by (simp add: dataURLs_def)
next
  case (2 k imgs tr st)
  then have "\<forall>p. 1 \<le> p \<and> p < Suc k \<longrightarrow> renderPage pdf p s \<noteq> Rejected"
    by (auto simp add: less_Suc_eq)
  with 2 show ?case by (simp add: dataURLs_snoc)
next
  case (3 k imgs tr st img)
  then have "\<forall>p. 1 \<le> p \<and> p < Suc k \<longrightarrow> renderPage pdf p s \<noteq> Rejected"
    by (auto simp add: less_Suc_eq)
  with 3 show ?case by (simp add: dataURLs_snoc)
next
  case (4 k imgs tr st)
  then show ?case by blast
next
  case (5 k imgs tr st)
  then have "k = Suc N" by simp
  with 5 show ?case by (auto simp add: less_Suc_eq_le)
qed

lemma quality_deliver [simp]: "(deliver e st)\<lparr>quality := q\<rparr> = st\<lparr>quality := q\<rparr>"
  by (cases e; simp add: deliver_def onValueChange_def)

lemma quality_after_page:
  "st\<lparr>progress := p, pages := i, quality := q\<rparr> = st\<lparr>quality := q, progress := p, pages := i\<rparr>"
  by (cases st) simp

lemma for_pages_quality:
  assumes "for_pages pdf s ev N k imgs tr st = (ex, imgs', tr', st')"
  shows "for_pages pdf s (\<lambda>k. None) N k imgs (map (\<lambda>t. t\<lparr>quality := q\<rparr>) tr) (st\<lparr>quality := q\<rparr>) =
           (ex, imgs', map (\<lambda>t. t\<lparr>quality := q\<rparr>) tr', st'\<lparr>quality := q\<rparr>)"
proof -
  define R where "R = for_pages pdf s (\<lambda>k. None) N k imgs (map (\<lambda>t. t\<lparr>quality := q\<rparr>) tr) (st\<lparr>quality := q\<rparr>)"
  have "R = (ex, imgs', map (\<lambda>t. t\<lparr>quality := q\<rparr>) tr', st'\<lparr>quality := q\<rparr>)"
  proof (rule for_pages_rule [OF assms,
        where I = "\<lambda>k imgs tr st.
          for_pages pdf s (\<lambda>k. None) N k imgs (map (\<lambda>t. t\<lparr>quality := q\<rparr>) tr) (st\<lparr>quality := q\<rparr>) = R"
        and Q = "\<lambda>ex imgs tr st. R = (ex, imgs, map (\<lambda>t. t\<lparr>quality := q\<rparr>) tr, st\<lparr>quality := q\<rparr>)"],
       goal_cases)
    case 1
    show ?case by (simp add: R_def)
  next
    case (2 k imgs tr st)
    then show ?case by (simp add: for_pages_NoContext)
  next
    case (3 k imgs tr st img)
    then show ?case
      by (cases "ev k") (simp_all add: for_pages_Rendered deliver_def onValueChange_def quality_after_page)
  next
    case (4 k imgs tr st)
    then show ?case by (simp add: for_pages_Rejected)
  next
    case (5 k imgs tr st)
    then show ?case by (simp add: for_pages_exit)
  qed
  then show ?thesis by (simp add: R_def)
qed

lemma for_pages_all_rendered:
  assumes r: "for_pages pdf s ev N 1 [] tr st = (ex, imgs', tr', st')"
    and all: "\<forall>p. 1 \<le> p \<and> p \<le> N \<longrightarrow> (\<exists>img. renderPage pdf p s = Rendered img)"
    and st: "progress st = 0"
  shows "ex = LoopDone \<and> length imgs' = N \<and>
         map progress tr' = map progress tr @ map (\<lambda>j. fl (fl (real j / real N) * 100)) [1..<Suc N] \<and>
         progress st' = (if N = 0 then 0 else 100)"
proof (rule for_pages_rule [OF r,
        where I = "\<lambda>k imgs t st. 1 \<le> k \<and> k \<le> Suc N \<and> Suc (length imgs) = k \<and>
                     map progress t = map progress tr @ map (\<lambda>j. fl (fl (real j / real N) * 100)) [1..<k] \<and>
                     progress st = (if k = 1 then 0 else fl (fl (real (k - 1) / real N) * 100))"],
       goal_cases)
  case 1
  from st show ?case by simp
next
  case (2 k imgs t st)
  with all show ?case by fastforce
next
  case (3 k imgs t st img)
  then show ?case by simp
next
  case (4 k imgs t st)
  with all show ?case by fastforce
next
  case (5 k imgs t st)
  then have "k = Suc N" by simp
  with 5 show ?case by auto
qed

subsection \<open>The conversion run\<close>

lemma convert_no_file:
  "file state = None \<Longrightarrow> convertPDFToImages getDocument ev state = ([], [])"
  by (simp add: convertPDFToImages_def)

lemma convert_no_document:
  "file state = Some f \<Longrightarrow> getDocument f = None \<Longrightarrow>
   convertPDFToImages getDocument ev state =
     ([state\<lparr>status := processing, progress := 0, pages := []\<rparr>,
       deliver (ev 0) (state\<lparr>status := processing, progress := 0, pages := []\<rparr>)\<lparr>status := error\<rparr>],
      [toast_info StartingConversion, toast_error FailedToConvert])"
  by (simp add: convertPDFToImages_def Let_def)

lemma convert_document:
  assumes "file state = Some f" "getDocument f = Some pdf"
    and "for_pages pdf (qualitySettings (quality state)) ev (numPages pdf) 1 []
           [state\<lparr>status := processing, progress := 0, pages := []\<rparr>]
           (deliver (ev 0) (state\<lparr>status := processing, progress := 0, pages := []\<rparr>)) = (ex, imgs, tr, st)"
  shows "convertPDFToImages getDocument ev state =
           (case ex of
              LoopDone \<Rightarrow>
                (tr @ [st\<lparr>status := completed, pages := imgs\<rparr>],
                 [toast_info StartingConversion, toast_success (Converted (numPages pdf))])
            | LoopThrew \<Rightarrow>
                (tr @ [st\<lparr>status := error\<rparr>],
                 [toast_info StartingConversion, toast_error FailedToConvert]))"
  using assms by (cases ex) (simp_all add: convertPDFToImages_def Let_def)


lemma convert_bound:
  assumes f: "file state = Some f" and d: "getDocument f = Some pdf"
  shows "\<forall>t\<in>set (fst (convertPDFToImages getDocument ev state)). length (pages t) \<le> numPages pdf"
proof -
  obtain ex imgs tr st where r:
    "for_pages pdf (qualitySettings (quality state)) ev (numPages pdf) 1 []
         [state\<lparr>status := processing, progress := 0, pages := []\<rparr>]
         (deliver (ev 0) (state\<lparr>status := processing, progress := 0, pages := []\<rparr>)) = (ex, imgs, tr, st)"
    by (cases rule: prod_cases4)
  have "pages st = imgs \<and> length imgs \<le> numPages pdf \<and> (\<forall>t\<in>set tr. length (pages t) \<le> numPages pdf)"
    by (rule for_pages_bound [OF r]) simp_all
  with convert_document [where getDocument = getDocument, OF f d r] show ?thesis by (cases ex) auto
qed

lemma convert_sorted:
  "sorted (map progress (fst (convertPDFToImages getDocument ev state)))"
proof (cases "file state")
  case None
  then show ?thesis by (simp add: convert_no_file)
next
  case (Some f)
  show ?thesis
  proof (cases "getDocument f")
    case None
    with Some show ?thesis by (simp add: convert_no_document)
  next
    case d: (Some pdf)
    obtain ex imgs tr st where r:
      "for_pages pdf (qualitySettings (quality state)) ev (numPages pdf) 1 []
           [state\<lparr>status := processing, progress := 0, pages := []\<rparr>]
           (deliver (ev 0) (state\<lparr>status := processing, progress := 0, pages := []\<rparr>)) = (ex, imgs, tr, st)"
      by (cases rule: prod_cases4)
    have "sorted (map progress tr) \<and> (\<forall>t\<in>set tr. progress t \<le> progress st)"
      by (rule for_pages_sorted [OF r]) simp_all
    with convert_document [where getDocument = getDocument, OF Some d r] show ?thesis
      by (cases ex) (auto simp add: sorted_append)
  qed
qed

lemma erased_fields:
  fixes a b :: "ConversionState list"
  assumes "map (\<lambda>t. t\<lparr>quality := q\<rparr>) a = map (\<lambda>t. t\<lparr>quality := q\<rparr>) b"
  shows "map pages a = map pages b \<and> map progress a = map progress b \<and>
         map status a = map status b \<and> map file a = map file b"
proof -
  have "map g (map (\<lambda>t. t\<lparr>quality := q\<rparr>) a) = map g (map (\<lambda>t. t\<lparr>quality := q\<rparr>) b)" for g :: "ConversionState \<Rightarrow> 'b"
    using assms by simp
  from this [of pages] this [of progress] this [of status] this [of "file"]
  show ?thesis by (simp add: comp_def)
qed

lemma convert_quality:
  "map (\<lambda>t. t\<lparr>quality := q\<rparr>) (fst (convertPDFToImages getDocument ev1 state)) =
   map (\<lambda>t. t\<lparr>quality := q\<rparr>) (fst (convertPDFToImages getDocument ev2 state)) \<and>
   snd (convertPDFToImages getDocument ev1 state) = snd (convertPDFToImages getDocument ev2 state)"
proof (cases "file state")
  case None
  then show ?thesis by (simp add: convert_no_file)
next
  case (Some f)
  show ?thesis
  proof (cases "getDocument f")
    case None
    with Some show ?thesis by (simp add: convert_no_document)
  next
    case d: (Some pdf)
    let ?start = "state\<lparr>status := processing, progress := 0, pages := []\<rparr>"
    obtain ex1 imgs1 tr1 st1 where r1:
      "for_pages pdf (qualitySettings (quality state)) ev1 (numPages pdf) 1 [] [?start] (deliver (ev1 0) ?start) = (ex1, imgs1, tr1, st1)"
      by (cases rule: prod_cases4)
    obtain ex2 imgs2 tr2 st2 where r2:
      "for_pages pdf (qualitySettings (quality state)) ev2 (numPages pdf) 1 [] [?start] (deliver (ev2 0) ?start) = (ex2, imgs2, tr2, st2)"
      by (cases rule: prod_cases4)
    from for_pages_quality [OF r1, of q] for_pages_quality [OF r2, of q]
    have eq: "ex1 = ex2" "imgs1 = imgs2"
      "map (\<lambda>t. t\<lparr>quality := q\<rparr>) tr1 = map (\<lambda>t. t\<lparr>quality := q\<rparr>) tr2"
      "st1\<lparr>quality := q\<rparr> = st2\<lparr>quality := q\<rparr>"
      by simp_all
    have fin: "st1\<lparr>status := c, pages := i, quality := q\<rparr> = st2\<lparr>status := c, pages := i, quality := q\<rparr>"
              "st1\<lparr>status := c, quality := q\<rparr> = st2\<lparr>status := c, quality := q\<rparr>" for c i
      using eq(4) by (cases st1; cases st2; simp)+
    from convert_document [where getDocument = getDocument, OF Some d r1] convert_document [where getDocument = getDocument, OF Some d r2] eq fin
    show ?thesis by (cases ex2) simp_all
  qed
qed

lemma convert_all_rendered:
  assumes f: "file state = Some f" and d: "getDocument f = Some pdf"
    and all: "\<forall>p. 1 \<le> p \<and> p \<le> numPages pdf \<longrightarrow>
                (\<exists>img. renderPage pdf p (qualitySettings (quality state)) = Rendered img)"
  shows "status (session_after state (convertPDFToImages getDocument ev state)) = completed \<and>
         length (pages (session_after state (convertPDFToImages getDocument ev state))) = numPages pdf \<and>
         progress (session_after state (convertPDFToImages getDocument ev state)) =
           (if numPages pdf = 0 then 0 else 100) \<and>
         map progress (fst (convertPDFToImages getDocument ev state)) =
           0 # map (\<lambda>k. fl (fl (real k / real (numPages pdf)) * 100)) [1..<Suc (numPages pdf)] @
           [if numPages pdf = 0 then 0 else 100]"
proof -
  let ?start = "state\<lparr>status := processing, progress := 0, pages := []\<rparr>"
  obtain ex imgs tr st where r:
    "for_pages pdf (qualitySettings (quality state)) ev (numPages pdf) 1 [] [?start] (deliver (ev 0) ?start) =
       (ex, imgs, tr, st)"
    by (cases rule: prod_cases4)
  have "ex = LoopDone \<and> length imgs = numPages pdf \<and>
        map progress tr = map progress [?start] @
          map (\<lambda>j. fl (fl (real j / real (numPages pdf)) * 100)) [1..<Suc (numPages pdf)] \<and>
        progress st = (if numPages pdf = 0 then 0 else 100)"
    by (rule for_pages_all_rendered [OF r all]) simp
  with convert_document [where getDocument = getDocument, OF f d r] show ?thesis
    by (simp add: session_after_def)
qed

lemma convert_rejected:
  assumes f: "file state = Some f" and d: "getDocument f = Some pdf"
    and j: "1 \<le> j" "j \<le> numPages pdf"
    and rej: "renderPage pdf j (qualitySettings (quality state)) = Rejected"
    and first: "\<forall>p. 1 \<le> p \<and> p < j \<longrightarrow> renderPage pdf p (qualitySettings (quality state)) \<noteq> Rejected"
  shows "status (session_after state (convertPDFToImages getDocument ev state)) = error \<and>
         pages (session_after state (convertPDFToImages getDocument ev state)) =
           dataURLs pdf (qualitySettings (quality state)) [1..<j] \<and>
         snd (convertPDFToImages getDocument ev state) =
           [toast_info StartingConversion, toast_error FailedToConvert]"
proof -
  let ?start = "state\<lparr>status := processing, progress := 0, pages := []\<rparr>"
  let ?sets = "qualitySettings (quality state)"
  obtain ex imgs tr st where r:
    "for_pages pdf ?sets ev (numPages pdf) 1 [] [?start] (deliver (ev 0) ?start) = (ex, imgs, tr, st)"
    by (cases rule: prod_cases4)
  have p: "pages st = imgs \<and> length imgs \<le> numPages pdf \<and> (\<forall>t\<in>set tr. length (pages t) \<le> numPages pdf)"
    by (rule for_pages_bound [OF r]) simp_all
  from for_pages_images [OF r] j rej have ex: "ex = LoopThrew" by auto
  with for_pages_images [OF r] obtain j' where j':
    "1 \<le> j'" "j' \<le> numPages pdf" "renderPage pdf j' ?sets = Rejected"
    "\<forall>p. 1 \<le> p \<and> p < j' \<longrightarrow> renderPage pdf p ?sets \<noteq> Rejected"
    "imgs = dataURLs pdf ?sets [1..<j']"
    by auto
  have "j' = j"
  proof (rule ccontr)
    assume "j' \<noteq> j"
    then consider "j' < j" | "j < j'" by linarith
    then show False
    proof cases
      case 1
      with first j'(1) j'(3) show False by simp
    next
      case 2
      with j'(4) j(1) rej show False by simp
    qed
  qed
  with j'(5) ex p convert_document [where getDocument = getDocument, OF f d r] show ?thesis
    by (simp add: session_after_def)
qed

lemma convert_not_rejected:
  assumes f: "file state = Some f" and d: "getDocument f = Some pdf"
    and none: "\<forall>p. 1 \<le> p \<and> p \<le> numPages pdf \<longrightarrow>
                 renderPage pdf p (qualitySettings (quality state)) \<noteq> Rejected"
  shows "status (session_after state (convertPDFToImages getDocument ev state)) = completed \<and>
         pages (session_after state (convertPDFToImages getDocument ev state)) =
           dataURLs pdf (qualitySettings (quality state)) [1..<Suc (numPages pdf)]"
proof -
  let ?start = "state\<lparr>status := processing, progress := 0, pages := []\<rparr>"
  let ?sets = "qualitySettings (quality state)"
  obtain ex imgs tr st where r:
    "for_pages pdf ?sets ev (numPages pdf) 1 [] [?start] (deliver (ev 0) ?start) = (ex, imgs, tr, st)"
    by (cases rule: prod_cases4)
  from for_pages_images [OF r] none
  have "ex = LoopDone \<and> imgs = dataURLs pdf ?sets [1..<Suc (numPages pdf)]" by auto
  with convert_document [where getDocument = getDocument, OF f d r] show ?thesis
    by (simp add: session_after_def)
qed


subsection \<open>The name of the output document\<close>

lemma not_prefix_pdf:
  assumes "\<not> sublist ''.pdf'' (c # cs @ ''.pd'')"
  shows "\<not> prefix ''.pdf'' (c # cs @ ''.pdf'')"
proof
  assume p: "prefix ''.pdf'' (c # cs @ ''.pdf'')"
  show False
  proof (cases cs)
    case Nil
    with p show False by simp
  next
    case (Cons a as)
    note c1 = this
    show False
    proof (cases as)
      case Nil
      with p c1 show False by simp
    next
      case (Cons b bs)
      note c2 = this
      show False
      proof (cases bs)
        case Nil
        with p c1 c2 show False by simp
      next
        case (Cons d ds)
        with p c1 c2 have "c # cs @ ''.pd'' = ''.pdf'' @ ds @ ''.pd''" by simp
        then have "sublist ''.pdf'' (c # cs @ ''.pd'')"
          by (metis append_Nil sublist_appendI)
        with assms show False by simp
      qed
    qed
  qed
qed

lemma String_replace_suffix:
  "\<not> sublist ''.pdf'' (base @ ''.pd'') \<Longrightarrow>
   String_replace (base @ ''.pdf'') ''.pdf'' rep = base @ rep"
proof (induction base)
  case Nil
  show ?case by simp
next
  case (Cons c cs)
  from Cons.prems have "\<not> sublist ''.pdf'' (c # cs @ ''.pd'')" by simp
  then have np: "\<not> prefix ''.pdf'' (c # cs @ ''.pdf'')"
    by (rule not_prefix_pdf)
  from Cons.prems have "\<not> sublist ''.pdf'' (cs @ ''.pd'')"
    by (auto simp add: sublist_Cons_right)
  then have ih: "String_replace (cs @ ''.pdf'') ''.pdf'' rep = cs @ rep"
    by (rule Cons.IH)
  have "String_replace (c # cs @ ''.pdf'') ''.pdf'' rep =
          (if prefix ''.pdf'' (c # cs @ ''.pdf'')
           then rep @ drop (length ''.pdf'') (c # cs @ ''.pdf'')
           else c # String_replace (cs @ ''.pdf'') ''.pdf'' rep)"
    by (rule String_replace.simps(2))
  also from np have "\<dots> = c # String_replace (cs @ ''.pdf'') ''.pdf'' rep"
    by (simp only: if_False)
  finally show ?case by (simp only: ih append_Cons)
qed

lemma fileName_suffix:
  assumes "\<not> sublist ''.pdf'' (base @ ''.pd'')"
  shows "fileName (Some \<lparr>name = base @ ''.pdf'', type = t\<rparr>) = base @ ''_image-only.pdf''"
  using String_replace_suffix [OF assms, of "''_image-only.pdf''"]
  by (simp add: fileName_def Let_def)

lemma fileName_no_file: "fileName None = ''converted_image-only.pdf''"
  by (simp add: fileName_def)

subsection \<open>Placement and assembly\<close>

lemma img_onload_binary64:
  assumes w: "0 < imgWidth" and h: "0 < imgHeight"
    and pw: "0 < pdfWidth" and ph: "0 < pdfHeight" "fl pdfHeight = pdfHeight"
  defines "p \<equiv> img_onload pdfWidth pdfHeight imgWidth imgHeight"
    and "ia \<equiv> fl (real imgWidth / real imgHeight)"
    and "pa \<equiv> fl (pdfWidth / pdfHeight)"
  shows img_onload_wide:
      "pa < ia \<Longrightarrow> img_width p = pdfWidth \<and> img_height p = fl (pdfWidth / ia) \<and>
         img_height p \<le> pdfHeight \<and> img_x p = 0 \<and> 0 \<le> img_y p"
    and img_onload_tall:
      "\<not> pa < ia \<Longrightarrow> img_height p = pdfHeight \<and> img_width p = fl (pdfHeight * ia) \<and>
         img_width p \<le> pdfWidth * (1 + 3 * eps) \<and> img_y p = 0"
    and img_onload_centre:
      "img_x p = fl (fl (pdfWidth - img_width p) / 2) \<and>
       img_y p = fl (fl (pdfHeight - img_height p) / 2)"
    and img_onload_ratio:
      "\<bar>img_width p / img_height p - real imgWidth / real imgHeight\<bar> \<le>
         real imgWidth / real imgHeight * (3 * eps)"
    and img_onload_positive: "0 < img_width p \<and> 0 < img_height p"
proof -
  define a where "a = real imgWidth / real imgHeight"
  define r where "r = pdfWidth / pdfHeight"
  have a: "0 < a" using w h by (simp add: a_def)
  have r: "0 < r" using pw ph by (simp add: r_def)
  have ia: "ia = fl a" by (simp add: ia_def a_def)
  have pa: "pa = fl r" by (simp add: pa_def r_def)
  have iapos: "0 < ia" unfolding ia using a by (rule fl_pos)
  have e: "0 \<le> eps" "eps \<le> 1 / 3" using eps_pos eps_small by simp_all
  have ia_rel: "a * (1 - eps) \<le> ia" "ia \<le> a * (1 + eps)"
    unfolding ia using fl_rel [OF a] by simp_all
  have wide: "p = \<lparr>img_x = fl (fl (pdfWidth - pdfWidth) / 2),
                    img_y = fl (fl (pdfHeight - fl (pdfWidth / ia)) / 2),
                    img_width = pdfWidth, img_height = fl (pdfWidth / ia)\<rparr>" if "pa < ia"
    using that by (simp add: p_def img_onload_def Let_def ia_def pa_def)
  have tall: "p = \<lparr>img_x = fl (fl (pdfWidth - fl (pdfHeight * ia)) / 2),
                    img_y = fl (fl (pdfHeight - pdfHeight) / 2),
                    img_width = fl (pdfHeight * ia), img_height = pdfHeight\<rparr>" if "\<not> pa < ia"
    using that by (simp add: p_def img_onload_def Let_def ia_def pa_def)
  show centre: "img_x p = fl (fl (pdfWidth - img_width p) / 2) \<and>
       img_y p = fl (fl (pdfHeight - img_height p) / 2)"
    using wide tall by (cases "pa < ia") simp_all
  have W: "img_width p = pdfWidth \<and> img_height p = fl (pdfWidth / ia) \<and>
         img_height p \<le> pdfHeight \<and> img_x p = 0 \<and> 0 \<le> img_y p \<and>
         a * (1 - 3 * eps) \<le> img_width p / img_height p \<and>
         img_width p / img_height p \<le> a * (1 + 3 * eps) \<and> 0 < img_height p" if c: "pa < ia"
  proof -
    define t where "t = pdfWidth / ia"
    have t: "0 < t" using pw iapos by (simp add: t_def)
    from c have "fl r < fl a" by (simp add: ia pa)
    with a r have "r \<le> ia" unfolding ia by (rule fl_above)
    then have "pdfWidth \<le> ia * pdfHeight" using ph by (simp add: r_def field_simps)
    then have "t \<le> pdfHeight" using iapos by (simp add: t_def field_simps)
    with t have "fl t \<le> fl pdfHeight" by (rule fl_mono)
    then have fit: "fl t \<le> pdfHeight" using ph by simp
    have tpos: "0 < fl t" using t by (rule fl_pos)
    have "0 \<le> fl (pdfHeight - fl t)" using fit by (intro fl_nonneg) simp
    then have y: "0 \<le> fl (fl (pdfHeight - fl t) / 2)" by (intro fl_nonneg) simp
    have "pdfWidth / ia * (1 - eps) \<le> fl t" "fl t \<le> pdfWidth / ia * (1 + eps)"
      using fl_rel [OF t] by (simp_all add: t_def)
    with e a pw ia_rel
    have "a * (1 - 3 * eps) \<le> pdfWidth / fl t" "pdfWidth / fl t \<le> a * (1 + 3 * eps)"
      by (rule rel_quot)+
    with fit tpos y show ?thesis by (simp add: wide [OF c] t_def)
  qed
  have T: "img_height p = pdfHeight \<and> img_width p = fl (pdfHeight * ia) \<and>
         img_width p \<le> pdfWidth * (1 + 3 * eps) \<and> img_y p = 0 \<and>
         a * (1 - 3 * eps) \<le> img_width p / img_height p \<and>
         img_width p / img_height p \<le> a * (1 + 3 * eps) \<and> 0 < img_width p" if c: "\<not> pa < ia"
  proof -
    define s where "s = pdfHeight * ia"
    have s: "0 < s" using ph iapos by (simp add: s_def)
    have spos: "0 < fl s" using s by (rule fl_pos)
    have s_rel: "s * (1 - eps) \<le> fl s" "fl s \<le> s * (1 + eps)" using fl_rel [OF s] by simp_all
    from c have "ia \<le> pa" by simp
    also have "pa \<le> r * (1 + eps)" unfolding pa using fl_rel(2) [OF r] .
    finally have "pdfHeight * ia \<le> pdfHeight * (r * (1 + eps))"
      using ph by (intro mult_left_mono) simp_all
    then have "s \<le> pdfWidth * (1 + eps)" using ph by (simp add: s_def r_def)
    then have "s * (1 + eps) \<le> pdfWidth * (1 + eps) * (1 + eps)"
      using e by (intro mult_right_mono) simp_all
    also have "\<dots> = pdfWidth * (1 + 2 * eps + eps * eps)" by (simp add: algebra_simps)
    also have "\<dots> \<le> pdfWidth * (1 + 3 * eps)"
    proof -
      have "eps * eps \<le> eps" using e by (simp add: mult_left_le)
      then show ?thesis using pw by (intro mult_left_mono) simp_all
    qed
    finally have fit: "fl s \<le> pdfWidth * (1 + 3 * eps)" using s_rel(2) by simp
    have "ia * (1 - eps) \<le> fl s / pdfHeight" "fl s / pdfHeight \<le> ia * (1 + eps)"
      using s_rel ph by (simp_all add: s_def field_simps)
    with e a ia_rel
    have "a * (1 - 3 * eps) \<le> fl s / pdfHeight" "fl s / pdfHeight \<le> a * (1 + 3 * eps)"
      by (rule rel_twice)+
    with fit spos show ?thesis by (simp add: tall [OF c] s_def)
  qed
  from W show "pa < ia \<Longrightarrow> img_width p = pdfWidth \<and> img_height p = fl (pdfWidth / ia) \<and>
         img_height p \<le> pdfHeight \<and> img_x p = 0 \<and> 0 \<le> img_y p"
    by simp
  from T show "\<not> pa < ia \<Longrightarrow> img_height p = pdfHeight \<and> img_width p = fl (pdfHeight * ia) \<and>
         img_width p \<le> pdfWidth * (1 + 3 * eps) \<and> img_y p = 0"
    by simp
  show "0 < img_width p \<and> 0 < img_height p"
  proof (cases "pa < ia")
    case True
    from W [OF True] pw show ?thesis by simp
  next
    case False
    from T [OF False] ph show ?thesis by simp
  qed
  have "a * (1 - 3 * eps) \<le> img_width p / img_height p \<and>
        img_width p / img_height p \<le> a * (1 + 3 * eps)"
  proof (cases "pa < ia")
    case True
    from W [OF True] show ?thesis by blast
  next
    case False
    from T [OF False] show ?thesis by blast
  qed
  then show "\<bar>img_width p / img_height p - real imgWidth / real imgHeight\<bar> \<le>
         real imgWidth / real imgHeight * (3 * eps)"
    by (simp add: a_def [symmetric] abs_le_iff algebra_simps)
qed





section \<open>The claims\<close>

subsection \<open>C1: pages and progress of a completed run\<close>

text \<open>Two parts of the claim hold for every run, whatever happens to the pages: the number
  of accumulated pages never exceeds the page count (\<open>convert_bound\<close>), and when every page
  is rendered the run completes with all pages and, for a document with at least one page,
  progress 100 (\<open>convert_all_rendered\<close>). The claim as a whole fails on the code.\<close>

text \<open>C1, at the failing input: a two-page document whose second canvas gets no 2D context.
  The body of \<^verbatim>\<open>if (context)\<close> is skipped, the loop ends, and the run reaches \<open>completed\<close>
  with one page of two and progress 50, while the toast reports 2 converted pages.\<close>

theorem completed_with_fewer_pages:
  "convertPDFToImages (\<lambda>f. Some last_page_without_context) (\<lambda>k. None) loaded =
     ([\<lparr>file = Some report_pdf, pages = [], progress = 0, status = processing, quality = high\<rparr>,
       \<lparr>file = Some report_pdf, pages = [''data:1''], progress = 50, status = processing, quality = high\<rparr>,
       \<lparr>file = Some report_pdf, pages = [''data:1''], progress = 50, status = completed, quality = high\<rparr>],
      [toast_info StartingConversion, toast_success (Converted 2)])"
  by (simp add: convertPDFToImages_def loaded_def last_page_without_context_def deliver_def
        qualitySettings_def for_pages.simps fl_eval)

subsection \<open>C2: placement of an image on the output page\<close>




subsection \<open>C3: assembly without pages\<close>

text \<open>C3, counterexample: with no pages, \<^verbatim>\<open>downloadImagePDF\<close> returns at line 121. Nothing is
  thrown, no toast is shown, no document is made: the result is not a failure.\<close>

theorem download_without_pages_counterexample:
  "downloadImagePDF a4 loaded = (EarlyReturn, [])"
  by (simp add: downloadImagePDF_def loaded_def)

text \<open>C3, as amended: invoked with an empty sequence of pages, the assembly returns at once
  without effect: no document, no toast, no error.\<close>

theorem download_without_pages:
  "pages state = [] \<Longrightarrow> downloadImagePDF env state = (EarlyReturn, [])"
  by (simp add: downloadImagePDF_def)

text \<open>C3, witness: the initial session has no pages.\<close>

theorem download_without_pages_witness:
  "pages initialState = [] \<and> downloadImagePDF a4 initialState = (EarlyReturn, [])"
  using download_without_pages [of initialState a4] by (simp add: initialState_def)

subsection \<open>C4: converting while a run is in progress\<close>




subsection \<open>C5: a page that fails to rasterize\<close>

text \<open>A page whose promise is rejected aborts the run as the claim says: status \<open>error\<close>,
  the pages accumulated before it retained, one error toast and no further turn
  (\<open>convert_rejected\<close>). A page whose canvas gets no context does not.\<close>

text \<open>C5, at the failing input: a three-page document whose second canvas gets no 2D
  context. The second page is skipped, the loop goes on to the third, and the run completes with
  the first and the third page. (The progress after the first page is the binary64 number
  33.33333333333333.)\<close>

theorem page_without_context_skipped:
  "convertPDFToImages (\<lambda>f. Some second_page_without_context) (\<lambda>k. None) loaded =
     ([\<lparr>file = Some report_pdf, pages = [], progress = 0, status = processing, quality = high\<rparr>,
       \<lparr>file = Some report_pdf, pages = [''data:1''], progress = 2345624805922133 / 70368744177664, status = processing, quality = high\<rparr>,
       \<lparr>file = Some report_pdf, pages = [''data:1'', ''data:3''], progress = 100, status = processing, quality = high\<rparr>,
       \<lparr>file = Some report_pdf, pages = [''data:1'', ''data:3''], progress = 100, status = completed, quality = high\<rparr>],
      [toast_info StartingConversion, toast_success (Converted 3)])"
  by (simp add: convertPDFToImages_def loaded_def second_page_without_context_def deliver_def
        qualitySettings_def for_pages.simps fl_eval)

subsection \<open>C6: the values of progress\<close>

text \<open>Progress never decreases within a run (\<open>convert_sorted\<close>), and a run in which every
  page is rendered takes the values \<open>k / N * 100\<close>, as computed in binary64, for \<open>k\<close> from
  1 to \<open>N\<close> and ends at 100 (\<open>convert_all_rendered\<close>). A completed run need not take
  them all.\<close>

text \<open>C6, at the failing input: a two-page document whose first canvas gets no 2D context.
  The completed run takes the values 0 and 100; the value 50 is never taken, and 100 is
  set after one rendered page of two.\<close>

theorem progress_value_missed:
  "map progress (fst (convertPDFToImages (\<lambda>f. Some first_page_without_context) (\<lambda>k. None) loaded)) =
     [0, 100, 100] \<and>
   map status (fst (convertPDFToImages (\<lambda>f. Some first_page_without_context) (\<lambda>k. None) loaded)) =
     [processing, processing, completed] \<and>
   map pages (fst (convertPDFToImages (\<lambda>f. Some first_page_without_context) (\<lambda>k. None) loaded)) =
     [[], [''data:2''], [''data:2'']]"
  by (simp add: convertPDFToImages_def loaded_def first_page_without_context_def deliver_def
        qualitySettings_def for_pages.simps fl_eval)

subsection \<open>C7: loading a source\<close>

text \<open>C7, counterexample: in the middle of a run, selecting another PDF file is not
  rejected: the source is replaced and the session is reset to \<open>idle\<close>.\<close>

theorem load_while_processing_counterexample:
  "status midrun = processing \<and>
   handleFileSelect (Some other_pdf) midrun =
     (\<lparr>file = Some other_pdf, pages = [], progress = 0, status = idle, quality = high\<rparr>,
      [toast_success (Loaded ''other.pdf'')])"
  by (simp add: handleFileSelect_def midrun_def other_pdf_def)

text \<open>C7, as amended: loading a file of type \<^verbatim>\<open>application/pdf\<close> succeeds in every status,
  \<open>processing\<close> included, by selection and by drop alike, and resets the session to no pages,
  progress 0 and status \<open>idle\<close>, keeping the quality; a file of another type is rejected
  with an error toast and leaves the session as it is.\<close>

theorem load_resets_in_every_status:
  "(type f = ''application/pdf'' \<longrightarrow>
      file (fst (handleFileSelect (Some f) prev)) = Some f \<and>
      pages (fst (handleFileSelect (Some f) prev)) = [] \<and>
      progress (fst (handleFileSelect (Some f) prev)) = 0 \<and>
      status (fst (handleFileSelect (Some f) prev)) = idle \<and>
      quality (fst (handleFileSelect (Some f) prev)) = quality prev \<and>
      snd (handleFileSelect (Some f) prev) = [toast_success (Loaded (name f))]) \<and>
   (type f \<noteq> ''application/pdf'' \<longrightarrow>
      handleFileSelect (Some f) prev = (prev, [toast_error PleaseSelect])) \<and>
   (find (\<lambda>g. type g = ''application/pdf'') files = Some f \<longrightarrow>
      onDrop files prev = handleFileSelect (Some f) prev) \<and>
   (find (\<lambda>g. type g = ''application/pdf'') files = None \<longrightarrow>
      onDrop files prev = (prev, [toast_error PleaseUpload]))"
proof -
  have "type f = ''application/pdf''" if "find (\<lambda>g. type g = ''application/pdf'') files = Some f"
    using that by (auto simp add: find_Some_iff)
  then show ?thesis
    by (auto simp add: handleFileSelect_def onDrop_def)
qed

text \<open>C7, witness: a PDF file selected, and dropped after a text file, in the middle of a
  run; a text file selected and dropped.\<close>

theorem load_resets_in_every_status_witness:
  "type other_pdf = ''application/pdf'' \<and> status midrun = processing \<and>
   file (fst (handleFileSelect (Some other_pdf) midrun)) = Some other_pdf \<and>
   pages (fst (handleFileSelect (Some other_pdf) midrun)) = [] \<and>
   progress (fst (handleFileSelect (Some other_pdf) midrun)) = 0 \<and>
   status (fst (handleFileSelect (Some other_pdf) midrun)) = idle \<and>
   find (\<lambda>g. type g = ''application/pdf'') [\<lparr>name = ''notes.txt'', type = ''text/plain''\<rparr>, other_pdf] =
     Some other_pdf \<and>
   onDrop [\<lparr>name = ''notes.txt'', type = ''text/plain''\<rparr>, other_pdf] midrun =
     handleFileSelect (Some other_pdf) midrun \<and>
   type \<lparr>name = ''notes.txt'', type = ''text/plain''\<rparr> \<noteq> ''application/pdf'' \<and>
   handleFileSelect (Some \<lparr>name = ''notes.txt'', type = ''text/plain''\<rparr>) midrun =
     (midrun, [toast_error PleaseSelect]) \<and>
   find (\<lambda>g. type g = ''application/pdf'') [\<lparr>name = ''notes.txt'', type = ''text/plain''\<rparr>] = None \<and>
   onDrop [\<lparr>name = ''notes.txt'', type = ''text/plain''\<rparr>] midrun = (midrun, [toast_error PleaseUpload])"
  using load_resets_in_every_status
      [of other_pdf midrun "[\<lparr>name = ''notes.txt'', type = ''text/plain''\<rparr>, other_pdf]"]
    load_resets_in_every_status
      [of "\<lparr>name = ''notes.txt'', type = ''text/plain''\<rparr>" midrun "[\<lparr>name = ''notes.txt'', type = ''text/plain''\<rparr>]"]
  by (simp add: other_pdf_def midrun_def)

subsection \<open>C8: the name of the output document\<close>

text \<open>For a name in which \<^verbatim>\<open>.pdf\<close> occurs at the end only, the suffix is replaced
  (\<open>fileName_suffix\<close>), and without a source the fallback name is used
  (\<open>fileName_no_file\<close>). In general the first occurrence is replaced, not the suffix.\<close>

text \<open>C8, at the failing input: in the name \<^verbatim>\<open>draft.pdf.final.pdf\<close> the first \<^verbatim>\<open>.pdf\<close> is
  replaced and the suffix is kept.\<close>

theorem fileName_first_occurrence:
  "fileName (Some \<lparr>name = ''draft.pdf.final.pdf'', type = ''application/pdf''\<rparr>) =
     ''draft_image-only.pdf.final.pdf''"
  by (simp add: fileName_def)

subsection \<open>C9: changing the quality\<close>

text \<open>C9, counterexample: in the middle of a run, a change of the quality selector is
  applied to the session.\<close>

theorem quality_change_while_processing_counterexample:
  "status midrun = processing \<and> settingsRendered midrun \<and>
   onValueChange low midrun =
     \<lparr>file = Some report_pdf, pages = [''data:1''], progress = 50, status = processing, quality = low\<rparr>"
  by (simp add: onValueChange_def midrun_def settingsRendered_def)

text \<open>C9, as amended: the quality can be changed in every status. The selector is rendered
  whenever a source is loaded, and a change sets the quality of the session and leaves
  every other field as it is; nothing is rejected.\<close>

theorem quality_change_in_every_status:
  "quality (onValueChange v prev) = v \<and>
   file (onValueChange v prev) = file prev \<and>
   pages (onValueChange v prev) = pages prev \<and>
   progress (onValueChange v prev) = progress prev \<and>
   status (onValueChange v prev) = status prev \<and>
   (file prev \<noteq> None \<longrightarrow> settingsRendered prev)"
  by (simp add: onValueChange_def settingsRendered_def)

text \<open>C9, witness: the change from high to low in the middle of a run.\<close>

theorem quality_change_in_every_status_witness:
  "file midrun \<noteq> None \<and> status midrun = processing \<and> settingsRendered midrun \<and>
   quality (onValueChange low midrun) = low \<and> status (onValueChange low midrun) = processing"
  using quality_change_in_every_status [of low midrun]
  by (simp add: midrun_def)

subsection \<open>C10: the settings of a run\<close>

text \<open>A change of quality that arrives during a run is written to the session, and the
  pages of that run are still rendered at the settings read at its start.\<close>

lemma quality_change_mid_run_example:
  "map pages (fst (convertPDFToImages (\<lambda>f. Some scale_marked) (\<lambda>k. if k = 1 then Some low else None) loaded)) =
     [[], [''data:2x''], [''data:2x'', ''data:2x''], [''data:2x'', ''data:2x'']] \<and>
   map quality (fst (convertPDFToImages (\<lambda>f. Some scale_marked) (\<lambda>k. if k = 1 then Some low else None) loaded)) =
     [high, low, low, low]"
  by (simp add: convertPDFToImages_def loaded_def scale_marked_def deliver_def onValueChange_def
        qualitySettings_def for_pages.simps fl_eval)

text \<open>C10: two runs from the same state over the same source, with any two sequences of
  quality changes arriving after the start, write the same pages, the same progress and the
  same status at every step, and show the same toasts.\<close>

theorem quality_read_once:
  "map pages (fst (convertPDFToImages getDocument ev1 state)) =
     map pages (fst (convertPDFToImages getDocument ev2 state)) \<and>
   map progress (fst (convertPDFToImages getDocument ev1 state)) =
     map progress (fst (convertPDFToImages getDocument ev2 state)) \<and>
   map status (fst (convertPDFToImages getDocument ev1 state)) =
     map status (fst (convertPDFToImages getDocument ev2 state)) \<and>
   snd (convertPDFToImages getDocument ev1 state) = snd (convertPDFToImages getDocument ev2 state)"
  using convert_quality [of high getDocument ev1 state ev2]
    erased_fields [of high "fst (convertPDFToImages getDocument ev1 state)"
      "fst (convertPDFToImages getDocument ev2 state)"]
  by simp

end
